theory Spec2Isabelle
  imports Main "HOL-Library.Sublist" "HOL-Library.AList"
begin

section \<open>Text and errors\<close>

text \<open>
  A Python \<open>str\<close> is a sequence of code points. The model uses \<^typ>\<open>string\<close>, reading
  each \<^typ>\<open>char\<close> as the code point of the same number (0 to 255); \<open>length\<close> counts code
  points, as \<open>len\<close> does. Code points above 255 are outside the model.
\<close>

datatype error =
    Exception string   \<comment> \<open>\<open>raise Exception(...)\<close> in \<open>chord_indicies\<close>\<close>
  | IndexError         \<comment> \<open>\<open>t[0]\<close> or \<open>t[-1]\<close> on an empty string\<close>
  | TypeError          \<comment> \<open>\<open>''.join\<close> over a list that holds \<open>None\<close>\<close>
  | AttributeError     \<comment> \<open>a string method called on \<open>None\<close>\<close>

section \<open>Chord line tokenizer: \<open>tokenise_chords\<close>\<close>

definition brackets :: "char \<Rightarrow> char option" where
  "brackets = map_of [(CHR ''('', CHR '')''), (CHR ''['', CHR '']''), (CHR ''{'', CHR ''}'')]"

text \<open>The characters of the literal \<open>'| \t\n\r'\<close>.\<close>

definition separators :: "char list" where
  "separators = [CHR ''|'', CHR '' '', CHR 0x09, CHR 0x0A, CHR 0x0D]"

text \<open>
  The \<open>for c in chord_line\<close> loop, with the three loop variables \<open>chords\<close>, \<open>chord\<close> and
  \<open>closer\<close> as arguments; the first equation is the flush after the loop.
\<close>

fun tokenise_loop :: "string \<Rightarrow> string list \<Rightarrow> string \<Rightarrow> char option \<Rightarrow> string list" where
  "tokenise_loop [] chords chord closer =
     (if chord \<noteq> [] then chords @ [chord] else chords)"
| "tokenise_loop (c # cs) chords chord closer =
     (if closer \<noteq> None then
        tokenise_loop cs chords (chord @ [c]) (if Some c = closer then None else closer)
      else if brackets c \<noteq> None then
        tokenise_loop cs chords (chord @ [c]) (brackets c)
      else if c \<in> set separators then
        tokenise_loop cs
          ((if chord \<noteq> [] then chords @ [chord] else chords)
             @ (if c = CHR ''|'' then [''|''] else []))
          [] closer
      else
        tokenise_loop cs chords (chord @ [c]) closer)"

definition tokenise_chords :: "string \<Rightarrow> string list" where
  "tokenise_chords chord_line = tokenise_loop chord_line [] [] None"

section \<open>Token indexer: \<open>chord_indicies\<close>\<close>

text \<open>\<open>str.find\<close>: the least index at which the pattern starts, \<open>None\<close> for Python's -1.\<close>

fun str_find :: "string \<Rightarrow> string \<Rightarrow> nat option" where
  "str_find [] sub = (if sub = [] then Some 0 else None)"
| "str_find (x # xs) sub =
     (if prefix sub (x # xs) then Some 0 else map_option Suc (str_find xs sub))"

text \<open>
  The generator, run to its end: the pairs it yields, or the exception it raises. The
  slice \<open>chord_line[i:]\<close> is \<open>drop i chord_line\<close>.
\<close>

fun indicies_loop :: "string \<Rightarrow> nat \<Rightarrow> string list \<Rightarrow> error + (nat \<times> string) list" where
  "indicies_loop chord_line i [] = Inr []"
| "indicies_loop chord_line i (chord # rest) =
     (case str_find (drop i chord_line) chord of
        None \<Rightarrow> Inl (Exception (''could not find '' @ chord @ '' in '' @ chord_line))
      | Some search_index \<Rightarrow>
          (let chord_index = i + search_index in
           case indicies_loop chord_line (chord_index + length chord) rest of
             Inl e \<Rightarrow> Inl e
           | Inr ps \<Rightarrow> Inr ((chord_index, chord) # ps)))"

definition chord_indicies :: "string \<Rightarrow> error + (nat \<times> string) list" where
  "chord_indicies chord_line = indicies_loop chord_line 0 (tokenise_chords chord_line)"

section \<open>Regular expressions\<close>

text \<open>
  The constructs the patterns of class \<open>RE\<close> use: character classes, literals, \<open>^\<close>, \<open>$\<close>,
  sequence, ordered alternation, greedy \<open>?\<close>, \<open>+\<close> and \<open>*\<close> on a character class, and
  groups. \<open>CHORD_SPLIT\<close> is never used by the module and is not embedded.
\<close>

datatype re =
    Eps                 \<comment> \<open>the empty pattern\<close>
  | Cls "char list"     \<comment> \<open>one character out of a class; a literal is a class of one\<close>
  | Bol                 \<comment> \<open>\<open>^\<close>\<close>
  | Eol                 \<comment> \<open>\<open>$\<close>\<close>
  | Seq re re
  | Alt re re           \<comment> \<open>\<open>a|b\<close>, \<open>a\<close> tried first\<close>
  | Star "char list"    \<comment> \<open>greedy \<open>[...]*\<close>\<close>
  | Grp string re       \<comment> \<open>a group, named, or numbered as \<open>''1''\<close>\<close>

type_synonym groups = "(string \<times> nat \<times> nat) list"

text \<open>
  Case folding for \<open>re.I\<close>. The patterns compiled with \<open>re.I\<close> hold ASCII characters only,
  and below 256 an ASCII letter has no case partner but its ASCII one.
\<close>

definition lower :: "char \<Rightarrow> char" where
  "lower c = (let n = (of_char c :: nat) in if 65 \<le> n \<and> n \<le> 90 then char_of (n + 32) else c)"

definition upper :: "char \<Rightarrow> char" where
  "upper c = (let n = (of_char c :: nat) in if 97 \<le> n \<and> n \<le> 122 then char_of (n - 32) else c)"

definition in_class :: "bool \<Rightarrow> char list \<Rightarrow> char \<Rightarrow> bool" where
  "in_class ignorecase cs c \<longleftrightarrow>
     c \<in> set cs \<or> (ignorecase \<and> (lower c \<in> set cs \<or> upper c \<in> set cs))"

text \<open>
  The backtracking matcher: \<open>ms ic s r i g\<close> lists, in the order in which backtracking
  tries them, the ends (with the groups set on the way) of the matches of \<open>r\<close> in \<open>s\<close> that
  start at index \<open>i\<close>. The match the \<open>re\<close> module reports is the first of the list.
  \<open>$\<close> matches at the end of the string and before a newline that ends the string.
\<close>

fun ms :: "bool \<Rightarrow> string \<Rightarrow> re \<Rightarrow> nat \<Rightarrow> groups \<Rightarrow> (nat \<times> groups) list" where
  "ms ic s Eps i g = [(i, g)]"
| "ms ic s (Cls cs) i g = (if i < length s \<and> in_class ic cs (s ! i) then [(Suc i, g)] else [])"
| "ms ic s Bol i g = (if i = 0 then [(i, g)] else [])"
| "ms ic s Eol i g =
     (if i = length s \<or> (Suc i = length s \<and> s ! i = CHR 0x0A) then [(i, g)] else [])"
| "ms ic s (Seq a b) i g = concat (map (\<lambda>p. ms ic s b (fst p) (snd p)) (ms ic s a i g))"
| "ms ic s (Alt a b) i g = ms ic s a i g @ ms ic s b i g"
| "ms ic s (Star cs) i g =
     map (\<lambda>k. (i + k, g)) (rev [0..<Suc (length (takeWhile (in_class ic cs) (drop i s)))])"
| "ms ic s (Grp n r) i g = map (\<lambda>p. (fst p, (n, i, fst p) # snd p)) (ms ic s r i g)"

text \<open>A match object: its span and its groups.\<close>

type_synonym match = "nat \<times> nat \<times> groups"

definition re_match :: "bool \<Rightarrow> re \<Rightarrow> string \<Rightarrow> match option" where
  "re_match ic r s = (case ms ic s r 0 [] of [] \<Rightarrow> None | p # _ \<Rightarrow> Some (0, fst p, snd p))"

fun search_from :: "bool \<Rightarrow> re \<Rightarrow> string \<Rightarrow> nat list \<Rightarrow> match option" where
  "search_from ic r s [] = None"
| "search_from ic r s (i # is) =
     (case ms ic s r i [] of [] \<Rightarrow> search_from ic r s is | p # _ \<Rightarrow> Some (i, fst p, snd p))"

definition re_search :: "bool \<Rightarrow> re \<Rightarrow> string \<Rightarrow> match option" where
  "re_search ic r s = search_from ic r s [0..<Suc (length s)]"

definition span_start :: "match \<Rightarrow> nat" where
  "span_start m = fst m"

text \<open>\<open>m.group(n)\<close>: the text of a group, \<open>None\<close> when the group took no part.\<close>

definition group :: "string \<Rightarrow> match \<Rightarrow> string \<Rightarrow> string option" where
  "group s m n =
     (case map_of (snd (snd m)) n of
        None \<Rightarrow> None
      | Some (a, b) \<Rightarrow> Some (take (b - a) (drop a s)))"

subsection \<open>Pattern notation\<close>

definition lit :: "string \<Rightarrow> re" where
  "lit w = foldr (\<lambda>c r. Seq (Cls [c]) r) w Eps"

definition seqs :: "re list \<Rightarrow> re" where
  "seqs rs = foldr Seq rs Eps"

fun alts :: "re list \<Rightarrow> re" where
  "alts [] = Eps"
| "alts [r] = r"
| "alts (r # rs) = Alt r (alts rs)"

definition opt :: "re \<Rightarrow> re" where
  "opt r = Alt r Eps"

definition plus :: "char list \<Rightarrow> re" where
  "plus cs = Seq (Cls cs) (Star cs)"

text \<open>
  \<open>\d\<close> and \<open>\s\<close> on code points below 256: the decimal digits, and the characters for
  which \<open>str.isspace\<close> holds.
\<close>

definition digits :: "char list" where
  "digits = ''0123456789''"

definition spaces :: "char list" where
  "spaces = [CHR 0x09, CHR 0x0A, CHR 0x0B, CHR 0x0C, CHR 0x0D, CHR 0x1C, CHR 0x1D, CHR 0x1E,
             CHR 0x1F, CHR '' '', CHR 0x85, CHR 0xA0]"

subsection \<open>The patterns of class \<open>RE\<close>\<close>

text \<open>\<open>KEY\<close>, \<open>TIME\<close>, \<open>TEMPO\<close>, \<open>SECTION\<close> and \<open>CCLI\<close> are compiled with \<open>re.I\<close>.\<close>

definition KEY :: re where
  "KEY = seqs [lit ''key'', plus spaces, Cls ''-:'', plus spaces,
               Grp ''1'' (seqs [Cls ''ABCDEFG'', opt (Cls ''#b'')])]"

definition TIME :: re where
  "TIME = seqs [lit ''time'', plus spaces, Cls ''-:'', plus spaces,
                Grp ''1'' (seqs [plus digits, lit ''/'', plus digits])]"

definition TEMPO :: re where
  "TEMPO = seqs [lit ''tempo'', plus spaces, Cls ''-:'', plus spaces,
                 Grp ''1'' (plus digits)]"

definition SECTION :: re where
  "SECTION = Grp ''1'' (alts [lit ''verse'', lit ''chorus'', lit ''bridge'', lit ''pre-chorus'',
                              lit ''instrumental'', lit ''interlude''])"

text \<open>
  \<open>CHORD\<close>, as the \<open>re\<close> module parses it: the alternation binds weaker than the sequence,
  so \<open>^\<close> belongs to the \<open>nochords\<close> branch and \<open>$\<close> to the branch that starts with \<open>note\<close>.
  The sharp and flat signs U+266F and U+266D of the classes lie above 255 and are left out;
  \<open>CHR 0xF8\<close> and \<open>CHR 0xB0\<close> are the half-diminished and degree signs of \<open>fifth\<close>.
\<close>

definition CHORD :: re where
  "CHORD =
     Alt
       (Seq Bol
         (Grp ''nochords'' (seqs [Cls ''Nn'', opt (lit ''.''), Cls ''Cc'', opt (lit ''.'')])))
       (seqs [
         Grp ''note'' (seqs [Cls ''ABCDEFGHIJZ'', opt (Cls ''b#'')]),
         opt (Grp ''third'' (alts [lit ''mM'', lit ''min'', lit ''MIN'', lit ''Min'', lit ''maj'',
                                   lit ''MAJ'', lit ''Maj'', lit ''m'', lit ''M''])),
         opt (Grp ''fifth'' (alts [lit ''aug'', lit ''AUG'', lit ''dim'', lit ''DIM'', lit ''+'',
                                   Cls [CHR 0xF8], Cls [CHR 0xB0]])),
         opt (Grp ''number'' (seqs [opt (lit ''(''), opt (Alt (lit ''dom'') (lit ''DOM'')),
                                    plus digits, opt (lit '')'')])),
         opt (Grp ''subtraction'' (seqs [opt (lit ''(''), lit ''no3'', opt (lit ''r''),
                                         opt (lit ''d''), opt (lit '')'')])),
         opt (Grp ''altered'' (seqs [Cls ''b#-+'', plus digits])),
         opt (Grp ''suspension'' (seqs [Alt (lit ''sus'') (lit ''SUS''), Star digits])),
         opt (Grp ''addition'' (seqs [alts [lit ''add'', lit ''ADD'', lit ''/''], plus digits])),
         opt (Grp ''bass'' (seqs [lit ''/'', Cls ''ABCDEFGHIJZ'', opt (Cls ''b#'')])),
         Eol])"

definition CCLI :: re where
  "CCLI = seqs [lit ''CCLI'', opt (lit '' ''), lit ''Song'', opt (lit '' ''), lit ''#'',
                opt (lit '' ''), Grp ''1'' (plus digits)]"

section \<open>Line-role classifier: \<open>is_chord_line\<close>\<close>

text \<open>
  The loop over the tokens with its two counters. \<open>t[0]\<close> and \<open>t[-1]\<close> raise IndexError on
  an empty token; the test \<open>t == '|'\<close> comes first.
\<close>

fun is_chord_loop :: "string list \<Rightarrow> nat \<Rightarrow> nat \<Rightarrow> error + bool" where
  "is_chord_loop [] chords not_chords = Inr (chords > not_chords)"
| "is_chord_loop (t # ts) chords not_chords =
     (if t = ''|'' then is_chord_loop ts (chords + 1) not_chords
      else if t = [] then Inl IndexError
      else if hd t = CHR ''('' \<or> last t = CHR '')'' then is_chord_loop ts (chords + 1) not_chords
      else if re_match False CHORD t \<noteq> None then is_chord_loop ts (chords + 1) not_chords
      else is_chord_loop ts chords (not_chords + 1))"

definition is_chord_line :: "string list \<Rightarrow> error + bool" where
  "is_chord_line tokens = is_chord_loop tokens 0 0"

section \<open>Superscript merger: \<open>fix_superscript_line\<close>\<close>

fun zip_longest :: "'a list \<Rightarrow> 'b list \<Rightarrow> ('a option \<times> 'b option) list" where
  "zip_longest [] [] = []"
| "zip_longest (x # xs) [] = (Some x, None) # zip_longest xs []"
| "zip_longest [] (y # ys) = (None, Some y) # zip_longest [] ys"
| "zip_longest (x # xs) (y # ys) = (Some x, Some y) # zip_longest xs ys"

text \<open>
  \<open>''.join(out)\<close>: \<open>out\<close> holds what was appended, a character or \<open>None\<close>; joining a list
  that holds \<open>None\<close> raises TypeError.
\<close>

definition join :: "char option list \<Rightarrow> error + string" where
  "join out = (if None \<in> set out then Inl TypeError else Inr (map the out))"

text \<open>What one round of the loop appends to \<open>out\<close>.\<close>

fun superscript_step :: "char option \<times> char option \<Rightarrow> char option list" where
  "superscript_step (s, c) =
     (if s = None then [c]
      else if s = Some CHR '' '' then [c]
      else if c = Some CHR '' '' then [s]
      else [s, c])"

definition fix_superscript_line :: "string \<Rightarrow> string \<Rightarrow> error + string" where
  "fix_superscript_line superscript chords =
     join (concat (map superscript_step (zip_longest superscript chords)))"

section \<open>ChordPro line merger: \<open>chordpro_line\<close>\<close>

text \<open>Truth value of a variable that holds a string or \<open>None\<close>.\<close>

definition truthy :: "string option \<Rightarrow> bool" where
  "truthy x \<longleftrightarrow> x \<noteq> None \<and> x \<noteq> Some []"

definition isspace :: "char \<Rightarrow> bool" where
  "isspace c \<longleftrightarrow> c \<in> set spaces"

definition rstrip :: "string \<Rightarrow> string" where
  "rstrip s = rev (dropWhile isspace (rev s))"

definition strip :: "string \<Rightarrow> string" where
  "strip s = rstrip (dropWhile isspace s)"

text \<open>
  \<open>re.sub(r'    +', '    ', s)\<close>: from left to right, every run of four or more spaces
  becomes four spaces.
\<close>

function sub_spaces :: "string \<Rightarrow> string" where
  "sub_spaces [] = []"
| "sub_spaces (c # cs) =
     (if prefix ''    '' (c # cs)
      then ''    '' @ sub_spaces (dropWhile (\<lambda>x. x = CHR '' '') cs)
      else c # sub_spaces cs)"
  by pat_completeness auto
termination
  by (relation "measure length") (auto simp: length_dropWhile_le le_imp_less_Suc)

text \<open>
  The two iterators. \<open>chord_iter\<close> is the list of pairs still to come, followed by
  \<open>(-1, None)\<close> for ever; \<open>line_iter\<close> is the counter of \<open>enumerate\<close> with the characters
  still to come, followed by \<open>None\<close> for ever.
\<close>

fun next_chord :: "(nat \<times> string) list \<Rightarrow> (int \<times> string option) \<times> (nat \<times> string) list" where
  "next_chord [] = ((-1, None), [])"
| "next_chord ((k, c) # rest) = ((int k, Some c), rest)"

fun next_char :: "nat \<times> string \<Rightarrow> (nat \<times> char option) \<times> (nat \<times> string)" where
  "next_char (n, []) = ((n, None), (Suc n, []))"
| "next_char (n, c # rest) = ((n, Some c), (Suc n, rest))"

text \<open>
  The inner loop \<open>while char == ' ' and skipped < len(chord)\<close>; it returns \<open>line_iter\<close>,
  \<open>i\<close>, \<open>char\<close> and \<open>last_char\<close>.
\<close>

function skip_loop ::
  "string \<Rightarrow> nat \<Rightarrow> nat \<times> string \<Rightarrow> nat \<Rightarrow> char option \<Rightarrow> char option
   \<Rightarrow> (nat \<times> string) \<times> nat \<times> char option \<times> char option" where
  "skip_loop chord skipped line_iter i char last_char =
     (if char = Some CHR '' '' \<and> skipped < length chord
      then (case next_char line_iter of
              ((i', char'), line_iter') \<Rightarrow> skip_loop chord (skipped + 1) line_iter' i' char' char)
      else (line_iter, i, char, last_char))"
  by pat_completeness auto
termination
  by (relation "measure (\<lambda>(chord, skipped, _). length chord - skipped)") auto

text \<open>What the branch \<open>i == index\<close> appends to \<open>output\<close> for the chord.\<close>

definition emit_chord ::
  "string \<Rightarrow> char option \<Rightarrow> char option \<Rightarrow> string list \<Rightarrow> error + string list" where
  "emit_chord chord char last_char output =
     (if prefix ''('' chord \<and> suffix '')'' chord then
        Inr (output @ [''{comment:'' @ chord @ ''}''])
      else if output \<noteq> [] \<and> last output = [] then Inl IndexError
      else if output \<noteq> [] \<and> last (last output) = CHR '']'' then
        Inr (output @ ['' ''] @ [''['' @ chord @ '']''])
      else if char = Some CHR '' '' \<and> last_char \<noteq> Some CHR '' '' then
        Inr (output @ ['' ''] @ [''['' @ chord @ '']''])
      else
        Inr (output @ [''['' @ chord @ '']'']))"

text \<open>
  The loop \<open>while chord or char\<close>. Nothing in its text bounds the number of rounds, so the
  result is an option: \<open>None\<close> is a loop that does not end.
\<close>

partial_function (option) merge_loop ::
  "(nat \<times> string) list \<Rightarrow> nat \<times> string \<Rightarrow> int \<Rightarrow> string option \<Rightarrow> nat \<Rightarrow> char option
   \<Rightarrow> string list \<Rightarrow> char option \<Rightarrow> (error + string list) option" where
  "merge_loop chord_iter line_iter index chord i char output last_char =
     (if \<not> (truthy chord \<or> char \<noteq> None) then Some (Inr output)
      else if int i = index then
        (case chord of
           None \<Rightarrow> Some (Inl AttributeError)
         | Some ch \<Rightarrow>
             (case emit_chord ch char last_char output of
                Inl e \<Rightarrow> Some (Inl e)
              | Inr output' \<Rightarrow>
                  (case skip_loop ch 0 line_iter i char last_char of
                     (line_iter', i', char', last_char') \<Rightarrow>
                       (case next_chord chord_iter of
                          ((index', chord'), chord_iter') \<Rightarrow>
                            merge_loop chord_iter' line_iter' index' chord' i' char'
                              output' last_char'))))
      else
        (case next_char line_iter of
           ((i', char'), line_iter') \<Rightarrow>
             (case char of
                None \<Rightarrow>
                  merge_loop chord_iter line_iter' index chord i' char'
                    (output @ ['' '']) (Some CHR '' '')
              | Some c \<Rightarrow>
                  merge_loop chord_iter line_iter' index chord i' char'
                    (output @ [[c]]) (Some c))))"

declare merge_loop.simps [code]

text \<open>
  \<open>chordpro_line\<close>. The generator \<open>chord_indicies\<close> is run to its end before the loop: a
  raise inside it reaches the caller of \<open>chordpro_line\<close> either way. The result is what
  the function returns, which is \<open>None\<close> when it hands back a \<open>lyric_line\<close> that is \<open>None\<close>.
\<close>

definition chordpro_line ::
  "string option \<Rightarrow> string option \<Rightarrow> (error + string option) option" where
  "chordpro_line chord_line lyric_line =
     (if \<not> truthy chord_line then Some (Inr lyric_line)
      else if \<not> truthy lyric_line then Some (Inr chord_line)
      else
        (case chord_indicies (the chord_line) of
           Inl e \<Rightarrow> Some (Inl e)
         | Inr pairs \<Rightarrow>
             (case next_chord pairs of
                ((index, chord), chord_iter) \<Rightarrow>
                  (case next_char (0, the lyric_line) of
                     ((i, char), line_iter) \<Rightarrow>
                       (case merge_loop chord_iter line_iter index chord i char [] None of
                          None \<Rightarrow> None
                        | Some (Inl e) \<Rightarrow> Some (Inl e)
                        | Some (Inr output) \<Rightarrow>
                            Some (Inr (Some (strip (sub_spaces (concat output))))))))))"

section \<open>Song structuring: the line loop of \<open>parse_pdf\<close>\<close>

text \<open>
  The dictionary \<open>song\<close>, with the value type of \<open>sections\<close> as parameter: lists of pairs
  while the lines are read, text after rendering. \<open>sections\<close> is an \<open>OrderedDict\<close>, an
  association list in which a store to a present key keeps the key's place and a store to
  a new key appends.
\<close>

record 's song =
  title :: "string option"
  key :: "string option"
  tempo :: "string option"
  author :: "string option"
  time :: "string option"
  ccli :: "string option"
  legal :: string
  sections :: "(string \<times> 's) list"
  type :: string

type_synonym pair = "string option \<times> string option"

text \<open>The local variables of \<open>parse_pdf\<close> that live across the rounds of the loop.\<close>

record locals =
  section_name :: "string option"
  section_lines :: "pair list"
  chord_line :: "string option"
  superscript_line :: "string option"

definition initial_song :: "'s song" where
  "initial_song = \<lparr> title = None, key = None, tempo = None, author = None, time = None,
                     ccli = None, legal = [], sections = [], type = ''pdf'' \<rparr>"

definition initial_locals :: locals where
  "initial_locals = \<lparr> section_name = None, section_lines = [], chord_line = None,
                       superscript_line = None \<rparr>"

text \<open>
  \<open>str.isdigit\<close> on code points below 256: the decimal digits and the superscripts two,
  three and one; the empty string is not a digit string.
\<close>

definition isdigit :: "string \<Rightarrow> bool" where
  "isdigit s \<longleftrightarrow> s \<noteq> [] \<and> (\<forall>c\<in>set s. c \<in> set (digits @ [CHR 0xB2, CHR 0xB3, CHR 0xB9]))"

text \<open>
  The block \<open>if section_name: ...\<close> that stores the open section, written twice in the
  source, in the header branch and after the loop.
\<close>

definition store_section :: "pair list song \<times> locals \<Rightarrow> pair list song \<times> locals" where
  "store_section st =
     (case st of (sg, v) \<Rightarrow>
        if truthy (section_name v) then
          (let lines' = (if truthy (chord_line v)
                         then section_lines v @ [(chord_line v, None)]
                         else section_lines v)
           in (sg\<lparr>sections := AList.update (the (section_name v)) lines' (sections sg)\<rparr>,
               v\<lparr>section_lines := lines'\<rparr>))
        else (sg, v))"

text \<open>The \<open>else\<close> branch of the loop body: a line of the preamble.\<close>

definition preamble :: "string \<Rightarrow> pair list song \<Rightarrow> pair list song" where
  "preamble line sg =
     (case re_search True KEY line of
        Some m \<Rightarrow> sg\<lparr>key := group line m ''1'', title := Some (strip (take (span_start m) line))\<rparr>
      | None \<Rightarrow>
          (case re_search True TIME line of
             None \<Rightarrow> sg
           | Some m \<Rightarrow>
               (case re_search True TEMPO line of
                  Some tempo_match \<Rightarrow>
                    sg\<lparr>time := group line m ''1'', tempo := group line tempo_match ''1'',
                       author := Some (strip (take (span_start tempo_match) line))\<rparr>
                | None \<Rightarrow>
                    sg\<lparr>time := group line m ''1'',
                       author := Some (strip (take (span_start m) line))\<rparr>)))"

text \<open>One round of \<open>for line in lines\<close>.\<close>

definition parse_line :: "string \<Rightarrow> pair list song \<times> locals \<Rightarrow> error + pair list song \<times> locals" where
  "parse_line line st =
     (case st of (sg, v) \<Rightarrow>
        if truthy (ccli sg) then Inr (sg\<lparr>legal := legal sg @ line\<rparr>, v)
        else
          (case re_search True CCLI line of
             Some m \<Rightarrow> Inr (sg\<lparr>ccli := group line m ''1'', legal := legal sg @ line\<rparr>, v)
           | None \<Rightarrow>
               if re_match True SECTION line \<noteq> None then
                 (case store_section (sg, v) of (sg', v') \<Rightarrow>
                    Inr (sg', v'\<lparr>chord_line := None, section_name := Some (strip line),
                                section_lines := []\<rparr>))
               else
                 (case is_chord_line (tokenise_chords line) of
                    Inl e \<Rightarrow> Inl e
                  | Inr True \<Rightarrow>
                      (let v1 = (if \<not> truthy (section_name v)
                                 then v\<lparr>section_name := Some ''VERSE 1''\<rparr> else v)
                       in case superscript_line v1 of
                            Some superscript \<Rightarrow>
                              (case fix_superscript_line superscript (rstrip line) of
                                 Inl e \<Rightarrow> Inl e
                               | Inr fixed \<Rightarrow>
                                   Inr (sg, v1\<lparr>chord_line := Some fixed,
                                              superscript_line := None\<rparr>))
                          | None \<Rightarrow> Inr (sg, v1\<lparr>chord_line := Some (rstrip line)\<rparr>))
                  | Inr False \<Rightarrow>
                      if truthy (section_name v) then
                        (if isdigit (strip line) then Inr (sg, v\<lparr>superscript_line := Some line\<rparr>)
                         else Inr (sg, v\<lparr>section_lines :=
                                           section_lines v @ [(chord_line v, Some (rstrip line))],
                                         chord_line := None\<rparr>))
                      else Inr (preamble line sg, v))))"

text \<open>The loop: the rounds in order, stopping at the first exception.\<close>

fun parse_lines :: "string list \<Rightarrow> pair list song \<times> locals \<Rightarrow> error + pair list song \<times> locals" where
  "parse_lines [] st = Inr st"
| "parse_lines (line # rest) st =
     (case parse_line line st of Inl e \<Rightarrow> Inl e | Inr st' \<Rightarrow> parse_lines rest st')"

section \<open>Song structuring: after the loop\<close>

text \<open>
  \<open>parse_pdf\<close> from the text that \<open>convert_pdf\<close> returns: the non-blank lines, the loop,
  the store of the open section, the rendering of every section, and the type tag. The
  debug printing writes to the terminal only and is left out.
\<close>

fun split :: "char \<Rightarrow> string \<Rightarrow> string list" where
  "split sep [] = [[]]"
| "split sep (c # cs) =
     (if c = sep then [] # split sep cs
      else (case split sep cs of [] \<Rightarrow> [[c]] | w # ws \<Rightarrow> (c # w) # ws))"

fun render_pairs :: "pair list \<Rightarrow> (error + string option list) option" where
  "render_pairs [] = Some (Inr [])"
| "render_pairs ((c, l) # rest) =
     (case chordpro_line c l of
        None \<Rightarrow> None
      | Some (Inl e) \<Rightarrow> Some (Inl e)
      | Some (Inr x) \<Rightarrow>
          (case render_pairs rest of
             None \<Rightarrow> None
           | Some (Inl e) \<Rightarrow> Some (Inl e)
           | Some (Inr xs) \<Rightarrow> Some (Inr (x # xs))))"

text \<open>\<open>'\n'.join(...)\<close>, which raises TypeError on an item that is \<open>None\<close>.\<close>

fun join_lines :: "string option list \<Rightarrow> error + string" where
  "join_lines [] = Inr []"
| "join_lines (None # rest) = Inl TypeError"
| "join_lines (Some x # rest) =
     (case join_lines rest of
        Inl e \<Rightarrow> Inl e
      | Inr y \<Rightarrow> Inr (if rest = [] then x else x @ [CHR 0x0A] @ y))"

fun render_sections :: "(string \<times> pair list) list \<Rightarrow> (error + (string \<times> string) list) option" where
  "render_sections [] = Some (Inr [])"
| "render_sections ((name, lines) # rest) =
     (case render_pairs lines of
        None \<Rightarrow> None
      | Some (Inl e) \<Rightarrow> Some (Inl e)
      | Some (Inr xs) \<Rightarrow>
          (case join_lines xs of
             Inl e \<Rightarrow> Some (Inl e)
           | Inr text \<Rightarrow>
               (case render_sections rest of
                  None \<Rightarrow> None
                | Some (Inl e) \<Rightarrow> Some (Inl e)
                | Some (Inr done) \<Rightarrow> Some (Inr ((name, text) # done)))))"

definition parse_pdf :: "string \<Rightarrow> (error + string song) option" where
  "parse_pdf sheet =
     (let lines = filter (\<lambda>l. strip l \<noteq> []) (split (CHR 0x0A) sheet) in
      case parse_lines lines (initial_song, initial_locals) of
        Inl e \<Rightarrow> Some (Inl e)
      | Inr st \<Rightarrow>
          (case store_section st of (sg, v) \<Rightarrow>
             (case render_sections (sections sg) of
                None \<Rightarrow> None
              | Some (Inl e) \<Rightarrow> Some (Inl e)
              | Some (Inr rendered) \<Rightarrow>
                  Some (Inr \<lparr> title = title sg, key = key sg, tempo = tempo sg,
                              author = author sg, time = time sg, ccli = ccli sg,
                              legal = legal sg, sections = rendered,
                              type = (if rendered = [] then ''pdf-failed'' else type sg) \<rparr>))))"

section \<open>Notions used to state the properties\<close>

text \<open>
  The characters that separate tokens and are dropped: the separators other than the bar.
\<close>

definition blank :: "char \<Rightarrow> bool" where
  "blank c \<longleftrightarrow> c \<in> {CHR '' '', CHR 0x09, CHR 0x0A, CHR 0x0D}"

text \<open>
  \<open>tiles r ts\<close>: the text \<open>r\<close> is the tokens \<open>ts\<close> in order, each after a run of blanks,
  with only blanks left at the end.
\<close>

fun tiles :: "string \<Rightarrow> string list \<Rightarrow> bool" where
  "tiles r [] = (\<forall>c\<in>set r. blank c)"
| "tiles r (t # ts) =
     (t \<noteq> [] \<and> \<not> blank (hd t) \<and> prefix t (dropWhile blank r)
      \<and> tiles (drop (length t) (dropWhile blank r)) ts)"

text \<open>
  \<open>placed line p ps\<close>: from column \<open>p\<close> on, each pair \<open>(off, tok)\<close> of \<open>ps\<close> has \<open>tok\<close> at
  columns \<open>off\<close> to \<open>off + len(tok)\<close> of the line, only blanks lie before it since the
  token before, and only blanks follow the last token.
\<close>

fun placed :: "string \<Rightarrow> nat \<Rightarrow> (nat \<times> string) list \<Rightarrow> bool" where
  "placed line p [] = (\<forall>c\<in>set (drop p line). blank c)"
| "placed line p ((off, tok) # ps) =
     (p \<le> off \<and> off + length tok \<le> length line
      \<and> (\<forall>c\<in>set (take (off - p) (drop p line)). blank c)
      \<and> take (length tok) (drop off line) = tok
      \<and> placed line (off + length tok) ps)"

text \<open>
  The tokens of \<open>ps\<close> in order, each after the text that the line has between the end of
  the token before and the token's offset, and then the rest of the line.
\<close>

fun rebuild :: "string \<Rightarrow> nat \<Rightarrow> (nat \<times> string) list \<Rightarrow> string" where
  "rebuild line p [] = drop p line"
| "rebuild line p ((off, tok) # ps) =
     take (off - p) (drop p line) @ tok @ rebuild line (off + length tok) ps"

text \<open>
  \<open>starts_nochord t\<close>: the token starts as the \<open>nochords\<close> branch demands, with \<open>N\<close> or
  \<open>n\<close>, then at most one dot, then \<open>C\<close> or \<open>c\<close>.
\<close>

fun starts_nochord :: "string \<Rightarrow> bool" where
  "starts_nochord (n # x # rest) =
     (n \<in> set ''Nn'' \<and> (x \<in> set ''Cc'' \<or> (x = CHR ''.'' \<and> rest \<noteq> [] \<and> hd rest \<in> set ''Cc'')))"
| "starts_nochord _ = False"

text \<open>The keywords of \<open>SECTION\<close>, and a line that begins with one of them in any case.\<close>

definition section_keywords :: "string list" where
  "section_keywords =
     [''verse'', ''chorus'', ''bridge'', ''pre-chorus'', ''instrumental'', ''interlude'']"

definition begins_with_keyword :: "string \<Rightarrow> bool" where
  "begins_with_keyword line \<longleftrightarrow>
     (\<exists>k\<in>set section_keywords. map lower (take (length k) line) = k)"

text \<open>\<open>lit_at ic w s i\<close>: the characters of \<open>w\<close> match those of \<open>s\<close> from index \<open>i\<close> on.\<close>

fun lit_at :: "bool \<Rightarrow> string \<Rightarrow> string \<Rightarrow> nat \<Rightarrow> bool" where
  "lit_at ic [] s i = True"
| "lit_at ic (c # w) s i = (i < length s \<and> in_class ic [c] (s ! i) \<and> lit_at ic w s (Suc i))"

text \<open>\<open>key_marker_at line j\<close>: the pattern \<open>KEY\<close> matches in the line from index \<open>j\<close>.\<close>

definition key_marker_at :: "string \<Rightarrow> nat \<Rightarrow> bool" where
  "key_marker_at line j \<longleftrightarrow> ms True line KEY j [] \<noteq> []"

section \<open>The tokenizer and the indexer\<close>

lemma tokenise_loop_append:
  "tokenise_loop cs (xs @ ys) chord closer = xs @ tokenise_loop cs ys chord closer"
  by (induction cs arbitrary: ys chord closer) auto

lemma tokenise_loop_acc:
  "tokenise_loop cs chords chord closer = chords @ tokenise_loop cs [] chord closer"
  using tokenise_loop_append[of cs chords "[]" chord closer] by simp

lemma tokenise_loop_nonempty:
  "[] \<notin> set chords \<Longrightarrow> [] \<notin> set (tokenise_loop cs chords chord closer)"
  by (induction cs arbitrary: chords chord closer) auto

lemma tiles_blank: "blank w \<Longrightarrow> tiles (w # r) ts = tiles r ts"
  by (cases ts) auto

lemma tiles_token: "t \<noteq> [] \<Longrightarrow> \<not> blank (hd t) \<Longrightarrow> tiles (t @ r) (t # ts) = tiles r ts"
  by (cases t) auto

lemma blank_separators: "c \<in> set separators \<Longrightarrow> c \<noteq> CHR ''|'' \<Longrightarrow> blank c"
  by (auto simp: separators_def blank_def)

lemma blank_is_separator: "blank c \<Longrightarrow> c \<in> set separators"
  by (auto simp: separators_def blank_def)

lemma blank_not_bracket: "blank c \<Longrightarrow> brackets c = None"
  by (auto simp: brackets_def blank_def)

lemma tokenise_loop_tiles:
  "chord = [] \<or> \<not> blank (hd chord) \<Longrightarrow> (closer \<noteq> None \<longrightarrow> chord \<noteq> []) \<Longrightarrow>
   tiles (chord @ cs) (tokenise_loop cs [] chord closer)"
proof (induction cs arbitrary: chord closer)
  case Nil
  then show ?case by (cases chord) auto
next
  case (Cons c cs)
  show ?case
  proof (cases "closer \<noteq> None")
    case True
    with Cons.prems have ne: "chord \<noteq> []" by simp
    with Cons.prems have "\<not> blank (hd (chord @ [c]))" by simp
    from Cons.IH[of "chord @ [c]" "if Some c = closer then None else closer"] this True
    show ?thesis by simp
  next
    case noc: False
    show ?thesis
    proof (cases "brackets c \<noteq> None")
      case True
      then have "\<not> blank c" using blank_not_bracket[of c] by auto
      with Cons.prems have "\<not> blank (hd (chord @ [c]))" by (cases chord) auto
      from Cons.IH[of "chord @ [c]" "brackets c"] this True noc
      show ?thesis by simp
    next
      case nob: False
      show ?thesis
      proof (cases "c \<in> set separators")
        case sep: True
        have ih: "tiles cs (tokenise_loop cs [] [] None)"
          using Cons.IH[of "[]" None] by simp
        have bar: "tiles (CHR ''|'' # cs) (''|'' # tokenise_loop cs [] [] None)"
          using tiles_token[of "''|''" cs] ih by (simp add: blank_def)
        have step: "tiles (c # cs) ((if c = CHR ''|'' then [''|''] else []) @ tokenise_loop cs [] [] None)"
        proof (cases "c = CHR ''|''")
          case True then show ?thesis using bar by (simp del: tiles.simps)
        next
          case False
          then have "blank c" using sep blank_separators by blast
          then show ?thesis using ih False tiles_blank by simp
        qed
        have eq: "tokenise_loop (c # cs) [] chord closer =
           (if chord \<noteq> [] then [chord] else []) @ (if c = CHR ''|'' then [''|''] else []) @ tokenise_loop cs [] [] None"
          using noc nob sep
            tokenise_loop_acc[of cs "(if chord \<noteq> [] then [chord] else []) @ (if c = CHR ''|'' then [''|''] else [])" "[]" None]
          by auto
        show ?thesis
        proof (cases "chord = []")
          case True
          then show ?thesis using eq step by simp
        next
          case False
          with Cons.prems have "\<not> blank (hd chord)" by simp
          then show ?thesis using eq step False tiles_token[of chord "c # cs"] by simp
        qed
      next
        case False
        then have "\<not> blank c" using blank_is_separator by blast
        with Cons.prems have "\<not> blank (hd (chord @ [c]))" by (cases chord) auto
        from Cons.IH[of "chord @ [c]" closer] this False noc nob
        show ?thesis by simp
      qed
    qed
  qed
qed

lemma str_find_after_blanks:
  "\<forall>c\<in>set g. blank c \<Longrightarrow> t \<noteq> [] \<Longrightarrow> \<not> blank (hd t) \<Longrightarrow> str_find (g @ t @ r) t = Some (length g)"
proof (induction g)
  case Nil
  then show ?case by (cases t) auto
next
  case (Cons a g)
  then have "\<not> prefix t (a # g @ t @ r)" by (cases t) auto
  with Cons show ?case by simp
qed

lemma tiles_indicies:
  "tiles (drop i line) ts \<Longrightarrow> i \<le> length line \<Longrightarrow>
   \<exists>ps. indicies_loop line i ts = Inr ps \<and> map snd ps = ts \<and> placed line i ps"
proof (induction ts arbitrary: i)
  case Nil
  then show ?case by simp
next
  case (Cons t ts)
  let ?r = "drop i line"
  let ?g = "takeWhile blank ?r"
  let ?d = "dropWhile blank ?r"
  from Cons.prems have t: "t \<noteq> []" "\<not> blank (hd t)" and pre: "prefix t ?d"
    and rest: "tiles (drop (length t) ?d) ts" by auto
  from pre obtain z where d: "?d = t @ z" by (auto simp: prefix_def)
  have r: "?r = ?g @ t @ z" using d takeWhile_dropWhile_id[of blank ?r] by simp
  have gb: "\<forall>c\<in>set ?g. blank c" by (auto dest: set_takeWhileD)
  have f: "str_find ?r t = Some (length ?g)"
    using str_find_after_blanks[OF gb t, of z] r by simp
  let ?j = "i + length ?g + length t"
  have len: "length line = i + length ?g + length t + length z"
    using arg_cong[OF r, of length] Cons.prems(2) by simp
  have dj: "drop ?j line = z"
  proof -
    have "drop ?j line = drop (length ?g + length t) ?r" by (simp add: add.commute add.left_commute)
    also have "\<dots> = z" by (subst r) simp
    finally show ?thesis .
  qed
  have jle: "?j \<le> length line" using len by linarith
  have "tiles (drop ?j line) ts" using rest d dj by simp
  moreover note jle
  ultimately obtain ps where ps: "indicies_loop line ?j ts = Inr ps" "map snd ps = ts" "placed line ?j ps"
    using Cons.IH[of ?j] by blast
  have tk: "take (i + length ?g - i) ?r = ?g" by (subst r) simp
  have "drop (i + length ?g) line = drop (length ?g) ?r" by (simp add: add.commute)
  also have "\<dots> = t @ z" by (subst r) simp
  finally have tt: "take (length t) (drop (i + length ?g) line) = t" by simp
  have "placed line i ((i + length ?g, t) # ps)"
    using ps(3) jle tk tt gb by simp
  then show ?case using f ps by simp
qed

lemma placed_rebuild: "placed line p ps \<Longrightarrow> p \<le> length line \<Longrightarrow> rebuild line p ps = drop p line"
proof (induction ps arbitrary: p)
  case Nil
  then show ?case by simp
next
  case (Cons a ps)
  obtain off tok where a: "a = (off, tok)" by (cases a)
  from Cons.prems a have h: "p \<le> off" "off + length tok \<le> length line"
    "take (length tok) (drop off line) = tok" "placed line (off + length tok) ps" by auto
  have r: "rebuild line (off + length tok) ps = drop (off + length tok) line"
    using Cons.IH[OF h(4) h(2)] .
  have "drop p line = take (off - p) (drop p line) @ drop (off - p) (drop p line)"
    by (rule append_take_drop_id[symmetric])
  also have "drop (off - p) (drop p line) = drop off line" using h(1) by simp
  also have "drop off line = take (length tok) (drop off line) @ drop (length tok) (drop off line)"
    by (rule append_take_drop_id[symmetric])
  also have "\<dots> = tok @ drop (off + length tok) line" using h(3) by (simp add: add.commute)
  finally show ?case using a r by simp
qed

lemma is_chord_loop_total:
  "[] \<notin> set ts \<Longrightarrow> \<exists>b. is_chord_loop ts c n = Inr b"
  by (induction ts arbitrary: c n) auto

lemma tokenise_chords_tiles: "tiles line (tokenise_chords line)"
proof -
  have "tiles ([] @ line) (tokenise_loop line [] [] None)"
    by (rule tokenise_loop_tiles) simp_all
  then show ?thesis by (simp add: tokenise_chords_def)
qed

text \<open>
  C10. For every line, every token that \<open>tokenise_chords\<close> returns is a non-empty string,
  so \<open>is_chord_line\<close> on these tokens never reads \<open>t[0]\<close> or \<open>t[-1]\<close> of an empty string: it
  returns a truth value and raises no IndexError.
\<close>

theorem tokenise_chords_tokens_nonempty:
  "(\<forall>t\<in>set (tokenise_chords line). t \<noteq> [])
   \<and> (\<exists>b. is_chord_line (tokenise_chords line) = Inr b)"
proof -
  have ne: "[] \<notin> set (tokenise_chords line)"
    using tokenise_loop_nonempty[of "[]" line "[]" None] by (simp add: tokenise_chords_def)
  then have "\<forall>t\<in>set (tokenise_chords line). t \<noteq> []" by auto
  moreover have "\<exists>b. is_chord_line (tokenise_chords line) = Inr b"
    using is_chord_loop_total[OF ne] by (simp add: is_chord_line_def)
  ultimately show ?thesis by simp
qed

theorem tokenise_chords_tokens_nonempty_witness:
  "tokenise_chords ''C  | (To Chorus) xy'' = [''C'', ''|'', ''(To Chorus)'', ''xy'']
   \<and> ''xy'' \<in> set (tokenise_chords ''C  | (To Chorus) xy'') \<and> ''xy'' \<noteq> []
   \<and> is_chord_line (tokenise_chords ''C  | (To Chorus) xy'') = Inr True"
proof -
  have a: "tokenise_chords ''C  | (To Chorus) xy'' = [''C'', ''|'', ''(To Chorus)'', ''xy'']"
    by code_simp
  have b: "is_chord_line [''C'', ''|'', ''(To Chorus)'', ''xy''] = Inr True"
    by code_simp
  have c: "\<forall>t\<in>set (tokenise_chords ''C  | (To Chorus) xy''). t \<noteq> []"
    using tokenise_chords_tokens_nonempty[of "''C  | (To Chorus) xy''"] by (rule conjunct1)
  have m: "''xy'' \<in> set (tokenise_chords ''C  | (To Chorus) xy'')"
    by (simp only: a list.set insert_iff simp_thms)
  from c m have n: "''xy'' \<noteq> []" by blast
  from a b have d: "is_chord_line (tokenise_chords ''C  | (To Chorus) xy'') = Inr True"
    by (simp only:)
  from a m n d show ?thesis by blast
qed

text \<open>
  C3. For every line, \<open>chord_indicies\<close> on the tokens of that same line does not raise:
  every token, in order, is found in the rest of the line, and the generator yields one
  pair for each token.
\<close>

theorem chord_indicies_never_raises:
  "\<exists>ps. chord_indicies line = Inr ps \<and> map snd ps = tokenise_chords line"
  using tiles_indicies[of 0 line "tokenise_chords line"] tokenise_chords_tiles[of line]
  by (auto simp: chord_indicies_def)

text \<open>
  C9. For every chord line (nested or unmatched brackets included), the pairs that
  \<open>chord_indicies\<close> yields rebuild the line: the tokens are those of the tokenizer, each
  offset is the column at which the token stands in the line, every character outside the
  tokens is a blank, and the tokens joined by the line's own text between them give back
  the line.
\<close>

theorem chord_indicies_roundtrip:
  "\<exists>ps. chord_indicies line = Inr ps \<and> map snd ps = tokenise_chords line
        \<and> placed line 0 ps \<and> rebuild line 0 ps = line"
proof -
  obtain ps where ps: "indicies_loop line 0 (tokenise_chords line) = Inr ps"
    "map snd ps = tokenise_chords line" "placed line 0 ps"
    using tiles_indicies[of 0 line "tokenise_chords line"] tokenise_chords_tiles[of line] by auto
  then show ?thesis using placed_rebuild[of line 0 ps] by (auto simp: chord_indicies_def)
qed

theorem chord_indicies_roundtrip_witness:
  "chord_indicies ''C   (To Chorus) |G#m7'' =
     Inr [(0, ''C''), (4, ''(To Chorus)''), (16, ''|''), (17, ''G#m7'')]
   \<and> placed ''C   (To Chorus) |G#m7'' 0
        [(0, ''C''), (4, ''(To Chorus)''), (16, ''|''), (17, ''G#m7'')]
   \<and> rebuild ''C   (To Chorus) |G#m7'' 0
        [(0, ''C''), (4, ''(To Chorus)''), (16, ''|''), (17, ''G#m7'')] = ''C   (To Chorus) |G#m7''"
proof -
  have a: "chord_indicies ''C   (To Chorus) |G#m7'' =
     Inr [(0, ''C''), (4, ''(To Chorus)''), (16, ''|''), (17, ''G#m7'')]"
    by code_simp
  obtain ps where ps: "chord_indicies ''C   (To Chorus) |G#m7'' = Inr ps"
    "placed ''C   (To Chorus) |G#m7'' 0 ps" "rebuild ''C   (To Chorus) |G#m7'' 0 ps = ''C   (To Chorus) |G#m7''"
    using chord_indicies_roundtrip[of "''C   (To Chorus) |G#m7''"] by blast
  from a ps(1) have "ps = [(0, ''C''), (4, ''(To Chorus)''), (16, ''|''), (17, ''G#m7'')]"
    by (simp only: sum.inject)
  with a ps(2,3) show ?thesis by (simp only: simp_thms)
qed

section \<open>The ChordPro merge\<close>

text \<open>
  C4. \<open>chordpro_line\<close> on the chord line \<open>"C       G       "\<close> (C at column 0, G at column
  8) and the lyric line \<open>"Amazing grace"\<close> returns exactly \<open>"[C]Amazing [G]grace"\<close>.
\<close>

theorem chordpro_line_amazing_grace:
  "chord_indicies ''C       G       '' = Inr [(0, ''C''), (8, ''G'')]
   \<and> chordpro_line (Some ''C       G       '') (Some ''Amazing grace'')
       = Some (Inr (Some ''[C]Amazing [G]grace''))"
  by code_simp

section \<open>The superscript merger\<close>

lemma superscript_out_None:
  "None \<in> set (concat (map superscript_step (zip_longest superscript chords)))
   \<longleftrightarrow> length chords < length superscript"
  by (induction superscript chords rule: zip_longest.induct) auto

lemma fix_superscript_line_raises_iff:
  "fix_superscript_line superscript chords = Inl TypeError
   \<longleftrightarrow> length chords < length superscript"
  unfolding fix_superscript_line_def join_def superscript_out_None by simp

text \<open>
  C6. \<open>fix_superscript_line\<close> is not total: on the superscript line \<open>" 6"\<close> over the chord
  line \<open>"A"\<close> the padding of the shorter chord line is appended to \<open>out\<close> as \<open>None\<close> and
  the join raises TypeError, where the claim has a merged string returned. The loop of
  \<open>parse_pdf\<close> reaches the call on the lines \<open>Verse 1\<close>, \<open>" 6"\<close>, \<open>A\<close>. The example of the
  docstring, \<open>" 6"\<close> over \<open>"A /B"\<close>, gives \<open>"A6/B"\<close>.
\<close>

theorem fix_superscript_line_longer_superscript:
  "fix_superscript_line '' 6'' ''A'' = Inl TypeError
   \<and> parse_lines [''Verse 1'', '' 6'', ''A''] (initial_song, initial_locals) = Inl TypeError
   \<and> fix_superscript_line '' 6'' ''A /B'' = Inr ''A6/B''"
  by code_simp

section \<open>The chord grammar\<close>

text \<open>
  C2. The match of \<open>CHORD\<close> is not anchored at the end in the \<open>nochords\<close> branch: the token
  \<open>N.C.xyz\<close> matches (the match ends at column 4, before \<open>xyz\<close>), and \<open>is_chord_line\<close> counts
  it as a chord, where the claim has the match fail. In the branch that starts with the
  root note the anchor holds: \<open>Cxyz\<close> does not match.
\<close>

theorem chord_nochords_not_anchored:
  "re_match False CHORD ''N.C.xyz'' = Some (0, 4, [(''nochords'', 0, 4)])
   \<and> is_chord_line [''N.C.xyz''] = Inr True
   \<and> re_match False CHORD ''Cxyz'' = None"
  by code_simp

section \<open>The matcher\<close>

lemma ms_Seq_mem:
  "p \<in> set (ms ic s (Seq a b) i g)
   \<longleftrightarrow> (\<exists>q\<in>set (ms ic s a i g). p \<in> set (ms ic s b (fst q) (snd q)))"
  by auto

lemma ms_Seq_Cls:
  "ms ic s (Seq (Cls cs) r) i g =
     (if i < length s \<and> in_class ic cs (s ! i) then ms ic s r (Suc i) g else [])"
  by auto

lemma concat_map_concat:
  "concat (map f (concat xss)) = concat (map (\<lambda>xs. concat (map f xs)) xss)"
  by (induction xss) auto

lemma ms_Seq_assoc: "ms ic s (Seq (Seq a b) c) i g = ms ic s (Seq a (Seq b c)) i g"
  by (simp add: concat_map_concat comp_def)

lemma ms_bounds:
  "p \<in> set (ms ic s r i g) \<Longrightarrow> i \<le> fst p \<and> (i \<le> length s \<longrightarrow> fst p \<le> length s)"
proof (induction r arbitrary: i g p)
  case (Seq a b)
  from Seq.prems obtain q where q: "q \<in> set (ms ic s a i g)" "p \<in> set (ms ic s b (fst q) (snd q))"
    by (auto simp del: ms.simps simp: ms_Seq_mem)
  from Seq.IH(1)[OF q(1)] Seq.IH(2)[OF q(2)] show ?case by auto
next
  case (Star cs)
  have "length (takeWhile (in_class ic cs) (drop i s)) \<le> length s - i"
    using length_takeWhile_le[of "in_class ic cs" "drop i s"] by simp
  with Star show ?case by auto
qed (auto split: if_splits)

lemma ms_plus:
  "p \<in> set (ms ic s (plus cs) i g) \<Longrightarrow> i < fst p \<and> fst p \<le> length s \<and> snd p = g"
proof -
  assume "p \<in> set (ms ic s (plus cs) i g)"
  then have i: "i < length s" and p: "p \<in> set (ms ic s (Star cs) (Suc i) g)"
    by (auto simp: plus_def split: if_splits)
  from ms_bounds[OF p] i have "i < fst p \<and> fst p \<le> length s" by auto
  moreover from p have "snd p = g" by auto
  ultimately show ?thesis by simp
qed

lemma ms_seqs_last_group:
  "p \<in> set (ms ic s (seqs (rs @ [Grp n (plus cs)])) i g) \<Longrightarrow>
   \<exists>a. map_of (snd p) n = Some (a, fst p) \<and> a < fst p \<and> fst p \<le> length s"
proof (induction rs arbitrary: i g)
  case Nil
  then obtain q where q: "q \<in> set (ms ic s (plus cs) i g)" "p = (fst q, (n, i, fst q) # snd q)"
    by (auto simp: seqs_def)
  from ms_plus[OF q(1)] q(2) show ?case by simp
next
  case (Cons r rs)
  from Cons.prems obtain q where
    "p \<in> set (ms ic s (seqs (rs @ [Grp n (plus cs)])) (fst q) (snd q))"
    by (auto simp: seqs_def)
  then show ?case by (rule Cons.IH)
qed

lemma search_from_Some:
  "search_from ic r s js = Some m \<Longrightarrow>
   \<exists>j\<in>set js. \<exists>p\<in>set (ms ic s r j []). m = (j, fst p, snd p)"
  by (induction js) (auto split: list.splits)

lemma CCLI_group_truthy:
  assumes "re_search True CCLI line = Some m"
  shows "truthy (group line m ''1'')"
proof -
  from assms obtain j p where p: "p \<in> set (ms True line CCLI j [])" "m = (j, fst p, snd p)"
    unfolding re_search_def by (blast dest: search_from_Some)
  have "CCLI = seqs ([lit ''CCLI'', opt (lit '' ''), lit ''Song'', opt (lit '' ''), lit ''#'',
                      opt (lit '' '')] @ [Grp ''1'' (plus digits)])"
    by (simp add: CCLI_def)
  with p(1) obtain a where a: "map_of (snd p) ''1'' = Some (a, fst p)" "a < fst p"
    "fst p \<le> length line"
    using ms_seqs_last_group by metis
  then have "group line m ''1'' = Some (take (fst p - a) (drop a line))"
    by (simp add: group_def p(2))
  moreover have "length (take (fst p - a) (drop a line)) = fst p - a" using a by simp
  ultimately show ?thesis using a(2) by (auto simp: truthy_def)
qed

section \<open>The line loop\<close>

lemma parse_line_legal:
  "truthy (ccli sg) \<Longrightarrow> parse_line line (sg, v) = Inr (sg\<lparr>legal := legal sg @ line\<rparr>, v)"
  by (simp add: parse_line_def)

lemma parse_lines_legal:
  "truthy (ccli sg) \<Longrightarrow>
   parse_lines rest (sg, v) = Inr (sg\<lparr>legal := legal sg @ concat rest\<rparr>, v)"
  by (induction rest arbitrary: sg) (simp_all add: parse_line_legal)

lemma parse_line_ccli:
  assumes "re_search True CCLI line \<noteq> None"
  shows "\<exists>sg'. parse_line line (sg, v) = Inr (sg', v) \<and> truthy (ccli sg')
           \<and> sg'\<lparr>ccli := ccli sg\<rparr> = sg\<lparr>legal := legal sg @ line\<rparr>"
proof (cases "truthy (ccli sg)")
  case True
  then show ?thesis by (simp add: parse_line_legal)
next
  case False
  from assms obtain m where m: "re_search True CCLI line = Some m" by auto
  from CCLI_group_truthy[OF m] False m show ?thesis by (simp add: parse_line_def)
qed

text \<open>
  The store of the open section after the loop does not read \<open>legal\<close>: what it stores is
  what it would have stored right after the CCLI line.
\<close>

lemma store_section_legal:
  "store_section (sg\<lparr>legal := l\<rparr>, v) =
     (case store_section (sg, v) of (sg', v') \<Rightarrow> (sg'\<lparr>legal := l\<rparr>, v'))"
  by (simp add: store_section_def Let_def)

text \<open>
  C5. Once a line that matches the CCLI pattern has been processed, the loop appends
  every later line to the legal text as it is and does nothing else with it: after any
  later lines \<open>rest\<close> the song and the loop variables are those reached at the CCLI line,
  with \<open>rest\<close> joined onto \<open>legal\<close>. The CCLI line itself changes \<open>ccli\<close> and \<open>legal\<close> only.
  So no later line is read as a header, a chord, superscript or lyric line, or preamble.
\<close>

theorem after_ccli_only_legal_grows:
  assumes "re_search True CCLI line \<noteq> None"
  shows "\<exists>sg'. parse_line line (sg, v) = Inr (sg', v)
           \<and> sg'\<lparr>ccli := ccli sg\<rparr> = sg\<lparr>legal := legal sg @ line\<rparr>
           \<and> (\<forall>rest. parse_lines rest (sg', v) = Inr (sg'\<lparr>legal := legal sg' @ concat rest\<rparr>, v))"
proof -
  from parse_line_ccli[OF assms, of sg v] obtain sg' where
    sg': "parse_line line (sg, v) = Inr (sg', v)" "truthy (ccli sg')"
    "sg'\<lparr>ccli := ccli sg\<rparr> = sg\<lparr>legal := legal sg @ line\<rparr>" by blast
  from sg'(2) have "\<forall>rest. parse_lines rest (sg', v) = Inr (sg'\<lparr>legal := legal sg' @ concat rest\<rparr>, v)"
    by (simp add: parse_lines_legal)
  with sg'(1,3) show ?thesis by blast
qed

theorem after_ccli_only_legal_grows_witness:
  "re_search True CCLI ''CCLI Song # 1234'' \<noteq> None
   \<and> parse_lines [''CCLI Song # 1234'', ''Chorus'', ''C   G'']
         (initial_song, initial_locals\<lparr>section_name := Some ''Verse 1''\<rparr>)
       = Inr (initial_song\<lparr>ccli := Some ''1234'', legal := ''CCLI Song # 1234ChorusC   G''\<rparr>,
              initial_locals\<lparr>section_name := Some ''Verse 1''\<rparr>)"
proof -
  let ?l = "''CCLI Song # 1234''"
  let ?sg = "initial_song :: pair list song"
  let ?v = "initial_locals\<lparr>section_name := Some ''Verse 1''\<rparr>"
  have h: "re_search True CCLI ?l \<noteq> None" by code_simp
  have e: "parse_line ?l (?sg, ?v) = Inr (?sg\<lparr>ccli := Some ''1234'', legal := ?l\<rparr>, ?v)"
    by code_simp
  from after_ccli_only_legal_grows[OF h, of ?sg ?v] obtain sg' where
    s: "parse_line ?l (?sg, ?v) = Inr (sg', ?v)"
       "\<forall>rest. parse_lines rest (sg', ?v) = Inr (sg'\<lparr>legal := legal sg' @ concat rest\<rparr>, ?v)"
    by blast
  from e s(1) have sg': "sg' = ?sg\<lparr>ccli := Some ''1234'', legal := ?l\<rparr>" by simp
  have "parse_lines [?l, ''Chorus'', ''C   G''] (?sg, ?v)
        = parse_lines [''Chorus'', ''C   G''] (sg', ?v)"
    using s(1) by simp
  also have "\<dots> = Inr (sg'\<lparr>legal := legal sg' @ concat [''Chorus'', ''C   G'']\<rparr>, ?v)"
    using s(2) by blast
  finally show ?thesis using h sg' by simp
qed

section \<open>The root note of the chord grammar\<close>

lemma ms_Seq_nonempty: "ms ic s (Seq a b) i g \<noteq> [] \<Longrightarrow> ms ic s a i g \<noteq> []"
  by auto

lemma ms_Grp_nonempty: "ms ic s (Grp n r) i g \<noteq> [] \<longleftrightarrow> ms ic s r i g \<noteq> []"
  by simp

lemma nochords_start:
  "ms False t (seqs [Cls ''Nn'', opt (lit ''.''), Cls ''Cc'', opt (lit ''.'')]) 0 g \<noteq> []
   \<Longrightarrow> starts_nochord t"
proof (cases t rule: starts_nochord.cases)
  case (1 n x rest)
  assume "ms False t (seqs [Cls ''Nn'', opt (lit ''.''), Cls ''Cc'', opt (lit ''.'')]) 0 g \<noteq> []"
  with 1 show ?thesis
    by (cases rest) (auto simp: seqs_def opt_def lit_def in_class_def split: if_splits)
qed (auto simp: seqs_def opt_def lit_def in_class_def split: if_splits)

text \<open>
  C7, as amended. A token that the chord grammar accepts is not empty, and either its
  first character is one of the root letters of the pattern, \<open>A\<close> to \<open>J\<close> or \<open>Z\<close>, or it
  starts as the no-chord marker does (\<open>N\<close>, an optional dot, \<open>C\<close>, in either case). A token
  whose first character is neither does not match.
\<close>

theorem chord_root_letter:
  assumes "re_match False CHORD t \<noteq> None"
  shows "t \<noteq> [] \<and> (hd t \<in> set ''ABCDEFGHIJZ'' \<or> starts_nochord t)"
proof -
  obtain R1 R2 where C: "CHORD =
      Alt (Seq Bol (Grp ''nochords''
             (seqs [Cls ''Nn'', opt (lit ''.''), Cls ''Cc'', opt (lit ''.'')])))
          (Seq (Grp ''note'' (Seq (Cls ''ABCDEFGHIJZ'') R1)) R2)"
    by (simp add: CHORD_def seqs_def)
  from assms have "ms False t CHORD 0 [] \<noteq> []"
    by (auto simp: re_match_def split: list.splits)
  then consider
      (nochords) "ms False t (Seq Bol (Grp ''nochords''
             (seqs [Cls ''Nn'', opt (lit ''.''), Cls ''Cc'', opt (lit ''.'')]))) 0 [] \<noteq> []"
    | (root) "ms False t (Seq (Grp ''note'' (Seq (Cls ''ABCDEFGHIJZ'') R1)) R2) 0 [] \<noteq> []"
    unfolding C by auto
  then show ?thesis
  proof cases
    case nochords
    then have "ms False t (seqs [Cls ''Nn'', opt (lit ''.''), Cls ''Cc'', opt (lit ''.'')]) 0 [] \<noteq> []"
      by simp
    then have s: "starts_nochord t" by (rule nochords_start)
    then have "t \<noteq> []" by (cases t) auto
    with s show ?thesis by simp
  next
    case root
    then have "ms False t (Grp ''note'' (Seq (Cls ''ABCDEFGHIJZ'') R1)) 0 [] \<noteq> []"
      using ms_Seq_nonempty by blast
    then have "ms False t (Seq (Cls ''ABCDEFGHIJZ'') R1) 0 [] \<noteq> []"
      by (simp only: ms_Grp_nonempty simp_thms)
    then have "0 < length t \<and> in_class False ''ABCDEFGHIJZ'' (t ! 0)"
      by (simp add: ms_Seq_Cls del: ms.simps split: if_splits)
    then show ?thesis by (cases t) (auto simp: in_class_def)
  qed
qed

theorem chord_root_letter_witness:
  "re_match False CHORD ''G#m7'' \<noteq> None
   \<and> ''G#m7'' \<noteq> [] \<and> (hd ''G#m7'' \<in> set ''ABCDEFGHIJZ'' \<or> starts_nochord ''G#m7'')"
proof -
  have h: "re_match False CHORD ''G#m7'' \<noteq> None" by code_simp
  from chord_root_letter[OF h] h show ?thesis by blast
qed

text \<open>
  The claim as it was written, with the root letter in \<open>A\<close> to \<open>G\<close>, fails on the tokens \<open>H\<close>,
  \<open>J\<close> and \<open>Z\<close>: each matches the chord grammar, and a line of the three is a chord line.
\<close>

theorem chord_root_letter_counterexample:
  "re_match False CHORD ''H'' \<noteq> None \<and> re_match False CHORD ''J'' \<noteq> None
   \<and> re_match False CHORD ''Z'' \<noteq> None \<and> is_chord_line [''H'', ''J'', ''Z''] = Inr True"
  by code_simp

section \<open>Section headers\<close>

lemma ms_lit: "ms ic s (lit w) i g = (if lit_at ic w s i then [(i + length w, g)] else [])"
proof (induction w arbitrary: i)
  case Nil
  show ?case by (simp add: lit_def)
next
  case (Cons c w)
  have "lit (c # w) = Seq (Cls [c]) (lit w)" by (simp add: lit_def)
  then show ?case using Cons.IH[of "Suc i"] by (simp add: ms_Seq_Cls del: ms.simps)
qed

lemma in_class_single_ci: "lower c = c \<Longrightarrow> in_class True [c] x \<longleftrightarrow> lower x = c"
proof -
  assume c: "lower c = c"
  have x: "of_char x < (256::nat)" and cc: "of_char c < (256::nat)" by simp_all
  have eq: "x = c \<longleftrightarrow> (of_char x :: nat) = of_char c" by simp
  have up: "\<And>n::nat. n < 256 \<Longrightarrow> (char_of n = c) \<longleftrightarrow> n = of_char c"
    by (metis char_of_char of_char_of mod_less)
  from c have nc: "\<not> (65 \<le> (of_char c :: nat) \<and> (of_char c :: nat) \<le> 90)"
    using up[of "of_char c + 32"] cc by (auto simp: lower_def Let_def split: if_splits)
  show ?thesis
    using x cc nc up[of "of_char x + 32"] up[of "of_char x - 32"]
    unfolding in_class_def lower_def upper_def Let_def eq
    by (auto split: if_splits)
qed

lemma lit_at_lower:
  "\<forall>c\<in>set w. lower c = c \<Longrightarrow>
   lit_at True w s i \<longleftrightarrow> map lower (take (length w) (drop i s)) = w"
proof (induction w arbitrary: i)
  case Nil
  show ?case by simp
next
  case (Cons c w)
  show ?case
  proof (cases "i < length s")
    case True
    then have d: "drop i s = s ! i # drop (Suc i) s" by (simp add: Cons_nth_drop_Suc)
    from Cons.prems have "lower c = c" "\<forall>c\<in>set w. lower c = c" by simp_all
    then show ?thesis using Cons.IH[of "Suc i"] True
      by (simp add: d in_class_single_ci)
  next
    case False
    then show ?thesis by simp
  qed
qed

lemma lower_keywords: "k \<in> set section_keywords \<Longrightarrow> \<forall>c\<in>set k. lower c = c"
  by (auto simp: section_keywords_def lower_def)

lemma SECTION_match_iff: "re_match True SECTION line \<noteq> None \<longleftrightarrow> begins_with_keyword line"
proof -
  have "re_match True SECTION line \<noteq> None \<longleftrightarrow> ms True line SECTION 0 [] \<noteq> []"
    by (auto simp: re_match_def split: list.splits)
  also have "\<dots> \<longleftrightarrow> (\<exists>k\<in>set section_keywords. lit_at True k line 0)"
    by (simp add: SECTION_def section_keywords_def ms_lit del: ms.simps(5) lit_at.simps)
  also have "\<dots> \<longleftrightarrow> begins_with_keyword line"
    unfolding begins_with_keyword_def
    using lit_at_lower[OF lower_keywords, of _ line 0] by auto
  finally show ?thesis .
qed

text \<open>
  C1, as amended. A line that begins with one of the keywords verse, chorus, bridge,
  pre-chorus, instrumental or interlude, in any case, is a section header, when no CCLI
  line came before and the line holds no CCLI marker itself: the open section, if there
  is one, is stored with its pending chord line, and a new section named by the trimmed
  line is opened with no lines and no pending chord line. \<open>SECTION\<close> is applied with \<open>match\<close>, so
  it matches exactly the lines that begin with a keyword.
\<close>

theorem section_header_at_line_start:
  assumes "\<not> truthy (ccli sg)" and "re_search True CCLI line = None"
    and "begins_with_keyword line"
  shows "re_match True SECTION line \<noteq> None
     \<and> parse_line line (sg, v) =
       Inr (sg\<lparr>sections :=
                 (if truthy (section_name v)
                  then AList.update (the (section_name v))
                         (section_lines v @ (if truthy (chord_line v) then [(chord_line v, None)] else []))
                         (sections sg)
                  else sections sg)\<rparr>,
            v\<lparr>chord_line := None, section_name := Some (strip line), section_lines := []\<rparr>)"
proof -
  from assms(3) have m: "re_match True SECTION line \<noteq> None" by (simp only: SECTION_match_iff)
  with assms(1,2) show ?thesis
    by (simp add: parse_line_def store_section_def Let_def)
qed

theorem section_header_at_line_start_witness:
  "\<not> truthy (ccli (initial_song :: pair list song)) \<and> re_search True CCLI ''Pre-Chorus 2  '' = None
   \<and> begins_with_keyword ''Pre-Chorus 2  ''
   \<and> parse_line ''Pre-Chorus 2  ''
        (initial_song, \<lparr>section_name = Some ''Verse 1'', section_lines = [(None, Some ''la'')],
                        chord_line = Some ''C  G'', superscript_line = None\<rparr>)
      = Inr (initial_song\<lparr>sections := [(''Verse 1'', [(None, Some ''la''), (Some ''C  G'', None)])]\<rparr>,
             \<lparr>section_name = Some ''Pre-Chorus 2'', section_lines = [],
              chord_line = None, superscript_line = None\<rparr>)"
proof -
  have a: "\<not> truthy (ccli (initial_song :: pair list song))" by code_simp
  have b: "re_search True CCLI ''Pre-Chorus 2  '' = None" by code_simp
  have c: "begins_with_keyword ''Pre-Chorus 2  ''" by code_simp
  have d: "strip ''Pre-Chorus 2  '' = ''Pre-Chorus 2''" by code_simp
  from section_header_at_line_start[OF a b c,
      of "\<lparr>section_name = Some ''Verse 1'', section_lines = [(None, Some ''la'')],
           chord_line = Some ''C  G'', superscript_line = None\<rparr>"]
  have "parse_line ''Pre-Chorus 2  ''
        (initial_song, \<lparr>section_name = Some ''Verse 1'', section_lines = [(None, Some ''la'')],
                        chord_line = Some ''C  G'', superscript_line = None\<rparr>)
      = Inr (initial_song\<lparr>sections := [(''Verse 1'', [(None, Some ''la''), (Some ''C  G'', None)])]\<rparr>,
             \<lparr>section_name = Some ''Pre-Chorus 2'', section_lines = [],
              chord_line = None, superscript_line = None\<rparr>)"
    by (simp add: d truthy_def initial_song_def)
  with a b c show ?thesis by blast
qed

text \<open>
  The claim as it was written fails on the line \<open>My verse\<close>: the keyword is in the line
  (\<open>search\<close> finds it), no CCLI line came before, and the line opens no section; it is
  read as a line of the preamble and changes nothing.
\<close>

theorem section_keyword_inside_line_counterexample:
  "re_search True SECTION ''My verse'' = Some (3, 8, [(''1'', 3, 8)])
   \<and> re_match True SECTION ''My verse'' = None
   \<and> parse_line ''My verse'' (initial_song, initial_locals) = Inr (initial_song, initial_locals)"
  by code_simp

section \<open>The key marker of the preamble\<close>

lemma char_of_eq_small: "n < 256 \<Longrightarrow> (char_of (n::nat) = (y::char)) \<longleftrightarrow> n = of_char y"
  by (metis char_of_char of_char_of mod_less)

lemma lower_eq:
  "lower c = y \<longleftrightarrow>
     (if 65 \<le> (of_char c :: nat) \<and> (of_char c :: nat) \<le> 90
      then (of_char y :: nat) = of_char c + 32 else c = y)"
  using char_of_eq_small[of "of_char c + 32" y] by (auto simp: lower_def Let_def)

lemma upper_eq:
  "upper c = y \<longleftrightarrow>
     (if 97 \<le> (of_char c :: nat) \<and> (of_char c :: nat) \<le> 122
      then (of_char y :: nat) + 32 = of_char c else c = y)"
proof -
  have "of_char c - (32::nat) < 256"
    using nat_of_char_less_256[of c] by linarith
  from char_of_eq_small[OF this, of y] show ?thesis
    by (auto simp: upper_def Let_def)
qed

lemma of_char_B: "(of_char c :: nat) = 66 \<longleftrightarrow> c = CHR ''B''"
  using of_char_eq_iff[where ?'a = nat, of c "CHR ''B''"] by simp

lemma isspace_in_class: "isspace c \<Longrightarrow> in_class True spaces c"
  by (simp add: in_class_def isspace_def)

lemma sep_classes:
  "c = CHR ''-'' \<or> c = CHR '':'' \<Longrightarrow> in_class True ''-:'' c \<and> \<not> in_class True spaces c"
  by (auto simp: in_class_def spaces_def lower_eq upper_eq)

lemma note_classes:
  "c \<in> set ''ABCDEFGabcdefg'' \<Longrightarrow> in_class True ''ABCDEFG'' c \<and> \<not> in_class True spaces c"
proof -
  have "list_all (\<lambda>c. in_class True ''ABCDEFG'' c \<and> \<not> in_class True spaces c) ''ABCDEFGabcdefg''"
    by code_simp
  then show "c \<in> set ''ABCDEFGabcdefg'' \<Longrightarrow> ?thesis"
    unfolding list_all_iff by blast
qed

lemma in_class_accidental: "in_class True ''#b'' c \<longleftrightarrow> c \<in> set ''#bB''"
proof
  assume "in_class True ''#b'' c"
  then show "c \<in> set ''#bB''"
    by (auto simp: in_class_def lower_eq upper_eq of_char_B split: if_splits)
next
  assume "c \<in> set ''#bB''"
  then show "in_class True ''#b'' c"
    by (auto simp: in_class_def lower_eq)
qed

lemma isspace_not_sep: "isspace c \<Longrightarrow> \<not> in_class True ''-:'' c"
  by (auto simp: in_class_def isspace_def spaces_def lower_eq upper_eq)

lemma isspace_not_note: "isspace c \<Longrightarrow> \<not> in_class True ''ABCDEFG'' c"
  by (auto simp: in_class_def isspace_def spaces_def lower_eq upper_eq)

lemma concat_map_only_last:
  "\<forall>k<n. f k = [] \<Longrightarrow> concat (map f (rev [0..<Suc n])) = f n"
  by (induction n) auto

lemma ms_Seq_Star_skip:
  assumes "\<forall>k<length (takeWhile (in_class ic cs) (drop i s)). ms ic s r (i + k) g = []"
  shows "ms ic s (Seq (Star cs) r) i g
         = ms ic s r (i + length (takeWhile (in_class ic cs) (drop i s))) g"
proof -
  let ?n = "length (takeWhile (in_class ic cs) (drop i s))"
  have "ms ic s (Seq (Star cs) r) i g = concat (map (\<lambda>k. ms ic s r (i + k) g) (rev [0..<Suc ?n]))"
    by (simp add: comp_def del: upt_Suc)
  also have "\<dots> = ms ic s r (i + ?n) g"
    using assms by (rule concat_map_only_last)
  finally show ?thesis .
qed

lemma takeWhile_run:
  "\<forall>c\<in>set w. P c \<Longrightarrow> b = [] \<or> \<not> P (hd b) \<Longrightarrow> takeWhile P (drop (length a) (a @ w @ b)) = w"
  by (cases b) (auto simp: takeWhile_tail)

lemma ms_Seq_plus_run:
  assumes s: "s = a @ w @ b" and w: "w \<noteq> []" "\<forall>c\<in>set w. in_class ic cs c"
    and b: "b = [] \<or> \<not> in_class ic cs (hd b)"
    and fail: "\<forall>k<length w. ms ic s r (length a + k) g = []"
  shows "ms ic s (Seq (plus cs) r) (length a) g = ms ic s r (length a + length w) g"
proof -
  from w obtain x w' where xw: "w = x # w'" by (cases w) auto
  have s': "s = (a @ [x]) @ w' @ b" using s xw by simp
  have tw: "takeWhile (in_class ic cs) (drop (Suc (length a)) s) = w'"
    using takeWhile_run[of w' "in_class ic cs" b "a @ [x]"] w(2) b xw s' by simp
  have first: "length a < length s \<and> in_class ic cs (s ! length a)"
    using s xw w(2) by simp
  have "ms ic s (Seq (plus cs) r) (length a) g = ms ic s (Seq (Star cs) r) (Suc (length a)) g"
    unfolding plus_def ms_Seq_assoc using first by (simp only: ms_Seq_Cls if_True simp_thms)
  also have "\<dots> = ms ic s r (Suc (length a) + length w') g"
  proof -
    have "\<forall>k<length w'. ms ic s r (Suc (length a) + k) g = []"
      using fail xw by (metis Suc_less_eq add_Suc_shift length_Cons)
    then show ?thesis using ms_Seq_Star_skip[of ic cs "Suc (length a)" s r g] tw by simp
  qed
  finally show ?thesis using xw by simp
qed

lemma ms_Seq_lit:
  "ms ic s (Seq (lit w) r) i g = (if lit_at ic w s i then ms ic s r (i + length w) g else [])"
  by (simp add: ms_lit del: lit_at.simps)

lemma KEY_at_marker:
  assumes form: "line = before @ kw @ ws1 @ [sep] @ ws2 @ [note] @ rest"
    and kw: "map lower kw = ''key''"
    and ws1: "ws1 \<noteq> []" "\<forall>c\<in>set ws1. isspace c"
    and sep: "sep = CHR ''-'' \<or> sep = CHR '':''"
    and ws2: "ws2 \<noteq> []" "\<forall>c\<in>set ws2. isspace c"
    and nt: "note \<in> set ''ABCDEFGabcdefg''"
    and a: "a = length (before @ kw @ ws1 @ [sep] @ ws2)"
  shows "ms True line KEY (length before) [] =
           (if rest \<noteq> [] \<and> hd rest \<in> set ''#bB'' then [(a + 2, [(''1'', a, a + 2)])] else [])
           @ [(a + 1, [(''1'', a, a + 1)])]"
proof -
  define R4 where "R4 = Seq (Grp ''1'' (Seq (Cls ''ABCDEFG'') (Seq (opt (Cls ''#b'')) Eps))) Eps"
  define R3 where "R3 = Seq (plus spaces) R4"
  define R2 where "R2 = Seq (Cls ''-:'') R3"
  have K: "KEY = Seq (lit ''key'') (Seq (plus spaces) R2)"
    by (simp add: KEY_def seqs_def R2_def R3_def R4_def)
  from kw have "length (map lower kw) = 3" by simp
  then have lk: "length kw = 3" by simp
  \<comment> \<open>the literal\<close>
  have "map lower (take (length ''key'') (drop (length before) line)) = ''key''"
    using kw lk form by simp
  then have l: "lit_at True ''key'' line (length before)"
    using lit_at_lower[of "''key''" line "length before"] by (simp add: lower_def del: lit_at.simps)
  have s1: "ms True line KEY (length before) [] = ms True line (Seq (plus spaces) R2) (length (before @ kw)) []"
  proof -
    have "ms True line KEY (length before) []
          = ms True line (Seq (plus spaces) R2) (length before + length ''key'') []"
      unfolding K ms_Seq_lit using l by (simp only: if_True)
    then show ?thesis using lk by (simp add: numeral_3_eq_3 del: ms.simps)
  qed
  \<comment> \<open>the first run of whitespace\<close>
  have f1: "\<forall>k<length ws1. ms True line R2 (length (before @ kw) + k) [] = []"
  proof (intro allI impI)
    fix k assume k: "k < length ws1"
    have "line ! (length (before @ kw) + k) = ws1 ! k"
      using k form by (simp add: nth_append)
    then have "\<not> in_class True ''-:'' (line ! (length (before @ kw) + k))"
      using ws1(2) k isspace_not_sep by simp
    then show "ms True line R2 (length (before @ kw) + k) [] = []"
      unfolding R2_def ms_Seq_Cls by simp
  qed
  have s2: "ms True line (Seq (plus spaces) R2) (length (before @ kw)) []
            = ms True line R2 (length (before @ kw) + length ws1) []"
  proof (rule ms_Seq_plus_run[where b = "[sep] @ ws2 @ [note] @ rest"])
    show "line = (before @ kw) @ ws1 @ [sep] @ ws2 @ [note] @ rest" using form by simp
    show "ws1 \<noteq> []" by (rule ws1)
    show "\<forall>c\<in>set ws1. in_class True spaces c" using ws1(2) isspace_in_class by blast
    show "[sep] @ ws2 @ [note] @ rest = [] \<or> \<not> in_class True spaces (hd ([sep] @ ws2 @ [note] @ rest))"
      using sep_classes[OF sep] by simp
    show "\<forall>k<length ws1. ms True line R2 (length (before @ kw) + k) [] = []" by (rule f1)
  qed
  \<comment> \<open>the dash or colon\<close>
  have sp: "line ! (length (before @ kw) + length ws1) = sep"
    using form by (simp add: nth_append)
  have ln: "length (before @ kw) + length ws1 < length line" using form by simp
  have s3: "ms True line R2 (length (before @ kw) + length ws1) []
            = ms True line R3 (length (before @ kw @ ws1 @ [sep])) []"
  proof -
    have "ms True line (Seq (Cls ''-:'') R3) (length (before @ kw) + length ws1) []
          = ms True line R3 (Suc (length (before @ kw) + length ws1)) []"
      using sp ln sep_classes[OF sep] by (simp only: ms_Seq_Cls if_True simp_thms)
    moreover have "Suc (length (before @ kw) + length ws1) = length (before @ kw @ ws1 @ [sep])"
      by simp
    ultimately show ?thesis unfolding R2_def by (simp only:)
  qed
  \<comment> \<open>the second run of whitespace\<close>
  have f2: "\<forall>k<length ws2. ms True line R4 (length (before @ kw @ ws1 @ [sep]) + k) [] = []"
  proof (intro allI impI)
    fix k assume k: "k < length ws2"
    have "line ! (length (before @ kw @ ws1 @ [sep]) + k) = ws2 ! k"
      using k form by (simp add: nth_append)
    then have "\<not> in_class True ''ABCDEFG'' (line ! (length (before @ kw @ ws1 @ [sep]) + k))"
      using ws2(2) k isspace_not_note by simp
    then show "ms True line R4 (length (before @ kw @ ws1 @ [sep]) + k) [] = []"
      unfolding R4_def by simp
  qed
  have s4: "ms True line R3 (length (before @ kw @ ws1 @ [sep])) [] = ms True line R4 a []"
  proof -
    have e: "ms True line (Seq (plus spaces) R4) (length (before @ kw @ ws1 @ [sep])) []
          = ms True line R4 (length (before @ kw @ ws1 @ [sep]) + length ws2) []"
    proof (rule ms_Seq_plus_run[where b = "[note] @ rest"])
      show "line = (before @ kw @ ws1 @ [sep]) @ ws2 @ [note] @ rest" using form by simp
      show "ws2 \<noteq> []" by (rule ws2)
      show "\<forall>c\<in>set ws2. in_class True spaces c" using ws2(2) isspace_in_class by blast
      show "[note] @ rest = [] \<or> \<not> in_class True spaces (hd ([note] @ rest))"
        using note_classes[OF nt] by simp
      show "\<forall>k<length ws2. ms True line R4 (length (before @ kw @ ws1 @ [sep]) + k) [] = []"
        by (rule f2)
    qed
    have "length (before @ kw @ ws1 @ [sep]) + length ws2 = a" unfolding a by simp
    with e show ?thesis unfolding R3_def by (simp only:)
  qed
  \<comment> \<open>the note and its accidental\<close>
  have la: "a < length line" and na: "line ! a = note"
    using form a by (simp_all add: nth_append)
  have ra: "Suc a < length line \<longleftrightarrow> rest \<noteq> []" using form a by auto
  have ha: "rest \<noteq> [] \<Longrightarrow> line ! Suc a = hd rest"
  proof -
    assume "rest \<noteq> []"
    then obtain x xs where "rest = x # xs" by (cases rest) auto
    then show ?thesis using form a by (simp add: nth_append)
  qed
  have s5: "ms True line R4 a [] =
           (if rest \<noteq> [] \<and> hd rest \<in> set ''#bB'' then [(a + 2, [(''1'', a, a + 2)])] else [])
           @ [(a + 1, [(''1'', a, a + 1)])]"
    unfolding R4_def using la na note_classes[OF nt] ra ha
    by (auto simp: opt_def in_class_accidental[symmetric] simp del: set_simps)
  show ?thesis using s1 s2 s3 s4 s5 by simp
qed

lemma search_from_first:
  "\<forall>j\<in>set js1. ms ic s r j [] = [] \<Longrightarrow> ms ic s r j [] = p # ps \<Longrightarrow>
   search_from ic r s (js1 @ j # js2) = Some (j, fst p, snd p)"
  by (induction js1) auto

lemma re_search_first:
  assumes "\<forall>j<n. ms ic s r j [] = []" and "ms ic s r n [] = p # ps" and "n \<le> length s"
  shows "re_search ic r s = Some (n, fst p, snd p)"
proof -
  have "[0..<Suc (length s)] = [0..<n] @ [n..<Suc (length s)]"
    using upt_add_eq_append[of 0 n "Suc (length s) - n"] assms(3) by simp
  moreover have "[n..<Suc (length s)] = n # [Suc n..<Suc (length s)]"
    using assms(3) by (simp add: upt_conv_Cons)
  ultimately have split: "[0..<Suc (length s)] = [0..<n] @ n # [Suc n..<Suc (length s)]"
    by (simp only:)
  have "search_from ic r s ([0..<n] @ n # [Suc n..<Suc (length s)]) = Some (n, fst p, snd p)"
  proof (rule search_from_first)
    show "\<forall>j\<in>set [0..<n]. ms ic s r j [] = []" using assms(1) by simp
    show "ms ic s r n [] = p # ps" by (rule assms(2))
  qed
  then show ?thesis unfolding re_search_def split .
qed

text \<open>
  C8, as amended. \<open>KEY\<close> asks for whitespace between the word key and the dash or colon,
  and again before the note. For a preamble line of the form \<open><title> key : <note>\<close> or
  \<open><title> key - <note>\<close>, that is the word key in any case, one or more whitespace
  characters, a colon or a dash, one or more whitespace characters and a note letter \<open>A\<close> to
  \<open>G\<close> in either case, with no such marker earlier in the line, the round sets the song's
  key to the note letter, with the \<open>#\<close>, \<open>b\<close> or \<open>B\<close> that may follow it, and the title to the
  trimmed text before the marker; both forms are treated alike.
\<close>

theorem key_marker_sets_key_and_title:
  assumes form: "line = before @ kw @ ws1 @ [sep] @ ws2 @ [note] @ rest"
    and kw: "map lower kw = ''key''"
    and ws1: "ws1 \<noteq> []" "\<forall>c\<in>set ws1. isspace c"
    and sep: "sep = CHR ''-'' \<or> sep = CHR '':''"
    and ws2: "ws2 \<noteq> []" "\<forall>c\<in>set ws2. isspace c"
    and nt: "note \<in> set ''ABCDEFGabcdefg''"
    and first: "\<forall>j<length before. \<not> key_marker_at line j"
    and preamble_line: "\<not> truthy (ccli sg)" "re_search True CCLI line = None"
      "\<not> begins_with_keyword line" "is_chord_line (tokenise_chords line) = Inr False"
      "\<not> truthy (section_name v)"
  shows "parse_line line (sg, v) =
           Inr (sg\<lparr>key := Some (note # takeWhile (\<lambda>c. c \<in> set ''#bB'') (take 1 rest)),
                   title := Some (strip before)\<rparr>, v)"
proof -
  define a where "a = length (before @ kw @ ws1 @ [sep] @ ws2)"
  define e where "e = (if rest \<noteq> [] \<and> hd rest \<in> set ''#bB'' then a + 2 else a + 1)"
  have m: "ms True line KEY (length before) [] =
           (if rest \<noteq> [] \<and> hd rest \<in> set ''#bB'' then [(a + 2, [(''1'', a, a + 2)])] else [])
           @ [(a + 1, [(''1'', a, a + 1)])]"
    using KEY_at_marker[OF form kw ws1 sep ws2 nt a_def] .
  have "\<exists>ps. ms True line KEY (length before) [] = (e, [(''1'', a, e)]) # ps"
    unfolding m e_def
    by (cases "rest \<noteq> [] \<and> hd rest \<in> set ''#bB''")
       ((simp only: if_True if_False append_Cons append_Nil simp_thms, blast)+)
  then obtain ps where fm: "ms True line KEY (length before) [] = (e, [(''1'', a, e)]) # ps"
    by blast
  have none: "\<forall>j<length before. ms True line KEY j [] = []"
    using first by (simp add: key_marker_at_def)
  have "length before \<le> length line" using form by simp
  from re_search_first[OF none fm this]
  have s: "re_search True KEY line = Some (length before, e, [(''1'', a, e)])" by simp
  have d: "drop a line = note # rest" using form a_def by simp
  have g: "group line (length before, e, [(''1'', a, e)]) ''1''
           = Some (note # takeWhile (\<lambda>c. c \<in> set ''#bB'') (take 1 rest))"
    by (cases rest) (auto simp: group_def d e_def)
  have tk: "take (length before) line = before" using form by simp
  have p: "preamble line sg =
             sg\<lparr>key := Some (note # takeWhile (\<lambda>c. c \<in> set ''#bB'') (take 1 rest)),
                title := Some (strip before)\<rparr>"
    by (simp add: preamble_def s g span_start_def tk)
  have "re_match True SECTION line = None"
    using preamble_line(3) SECTION_match_iff[of line] by blast
  with preamble_line p show ?thesis
    by (simp add: parse_line_def)
qed

theorem key_marker_sets_key_and_title_witness:
  "parse_line ''Amazing Grace  Key :  Bb major'' (initial_song, initial_locals)
   = Inr (initial_song\<lparr>key := Some ''Bb'', title := Some ''Amazing Grace''\<rparr>, initial_locals)"
proof -
  let ?line = "''Amazing Grace  Key :  Bb major''"
  have form: "?line = ''Amazing Grace  '' @ ''Key'' @ '' '' @ [CHR '':''] @ ''  '' @ [CHR ''B''] @ ''b major''"
    by simp
  have kw: "map lower ''Key'' = ''key''" by code_simp
  have ws1: "'' '' \<noteq> []" "\<forall>c\<in>set '' ''. isspace c" by (simp_all add: isspace_def spaces_def)
  have sep: "CHR '':'' = CHR ''-'' \<or> CHR '':'' = CHR '':''" by simp
  have ws2: "''  '' \<noteq> []" "\<forall>c\<in>set ''  ''. isspace c" by (simp_all add: isspace_def spaces_def)
  have nt: "CHR ''B'' \<in> set ''ABCDEFGabcdefg''" by simp
  have "list_all (\<lambda>j. \<not> key_marker_at ?line j) [0..<length ''Amazing Grace  '']" by code_simp
  then have first: "\<forall>j<length ''Amazing Grace  ''. \<not> key_marker_at ?line j"
    unfolding list_all_iff by (metis atLeastLessThan_iff set_upt zero_le)
  have p1: "\<not> truthy (ccli (initial_song :: pair list song))" by code_simp
  have p2: "re_search True CCLI ?line = None" by code_simp
  have p3: "\<not> begins_with_keyword ?line" by code_simp
  have p4: "is_chord_line (tokenise_chords ?line) = Inr False" by code_simp
  have p5: "\<not> truthy (section_name initial_locals)" by code_simp
  have st: "strip ''Amazing Grace  '' = ''Amazing Grace''" by code_simp
  from key_marker_sets_key_and_title[OF form kw ws1 sep ws2 nt first p1 p2 p3 p4 p5]
  show ?thesis by (simp add: st)
qed

text \<open>
  The claim as it was written fails on the preamble line \<open>Grace key: G\<close>: with no
  whitespace before the colon the round leaves the key and the title unset, where the
  line \<open>Grace key - G\<close> sets them.
\<close>

theorem key_colon_without_space_counterexample:
  "parse_line ''Grace key: G'' (initial_song, initial_locals) = Inr (initial_song, initial_locals)
   \<and> parse_line ''Grace key - G'' (initial_song, initial_locals)
       = Inr (initial_song\<lparr>key := Some ''G'', title := Some ''Grace''\<rparr>, initial_locals)"
  by code_simp

end
